theory Spec2Isabelle
  imports Main "HOL-Library.Word"
begin

section \<open>The NSQ frame decoder of lua-nsqpp (src/util.c)\<close>

text \<open>
  The module exports two C functions to Lua: \<open>decodeframe\<close>, which inspects a byte
  string and returns a tuple of Lua values, and \<open>htonl\<close>, which returns the four bytes
  of a length prefix. Both are embedded below as functions from their argument to the
  tuple of values they return. A run that does not return a tuple (a read outside the
  string's memory, a length that \<open>lua_pushlstring\<close> cannot copy) is the value \<open>Inl\<close>
  of a fault.

  Platform: a host with 8-bit bytes, little-endian byte order, 32-bit \<open>int\<close>, 64-bit
  \<open>size_t\<close> and a 64-bit two's complement \<open>lua_Integer\<close>. C integers are modelled as
  \<open>int\<close> with every conversion written out, and arithmetic in the C type \<open>int\<close> keeps
  the low 32 bits of its result, as the compiled code does.
\<close>

subsection \<open>Values, faults, sequencing\<close>

type_synonym byte = "8 word"

datatype lua_value = LInteger int | LString "byte list"

datatype fault = OutOfBounds

definition andthen :: "fault + 'a \<Rightarrow> ('a \<Rightarrow> fault + 'b) \<Rightarrow> fault + 'b" where
  "andthen r f = (case r of Inl e \<Rightarrow> Inl e | Inr v \<Rightarrow> f v)"

subsection \<open>C integer conversions\<close>

definition to_uint16 :: "int \<Rightarrow> int" where
  "to_uint16 v = v mod 2 ^ 16"

definition to_uint32 :: "int \<Rightarrow> int" where
  "to_uint32 v = v mod 2 ^ 32"

definition to_uint64 :: "int \<Rightarrow> int" where
  "to_uint64 v = v mod 2 ^ 64"

text \<open>\<open>size_t\<close> is the unsigned 64-bit type.\<close>

definition to_size_t :: "int \<Rightarrow> int" where
  "to_size_t v = v mod 2 ^ 64"

definition to_int16 :: "int \<Rightarrow> int" where
  "to_int16 v = (v + 2 ^ 15) mod 2 ^ 16 - 2 ^ 15"

definition to_int32 :: "int \<Rightarrow> int" where
  "to_int32 v = (v + 2 ^ 31) mod 2 ^ 32 - 2 ^ 31"

definition to_int64 :: "int \<Rightarrow> int" where
  "to_int64 v = (v + 2 ^ 63) mod 2 ^ 64 - 2 ^ 63"

text \<open>
  Arithmetic in the type \<open>int\<close> (here on \<open>int32_t\<close> operands): the compiled code adds and
  subtracts in 32 bits, so a result outside the type wraps around.
\<close>

definition int_arith :: "int \<Rightarrow> int" where
  "int_arith v = to_int32 v"

subsection \<open>Memory\<close>

text \<open>
  \<open>luaL_checklstring\<close> hands out a pointer to the string's bytes; Lua guarantees one
  zero byte after the last character. Those \<open>len + 1\<close> bytes are what the decoder may
  read; \<open>peek\<close> is \<open>bytes[i]\<close>.
\<close>

definition luaL_checklstring :: "byte list \<Rightarrow> byte list" where
  "luaL_checklstring data = data @ [0]"

definition peek :: "byte list \<Rightarrow> nat \<Rightarrow> fault + byte" where
  "peek m i = (if i < length m then Inr (m ! i) else Inl OutOfBounds)"

text \<open>
  The unions \<open>nsqpp_bswap16_t\<close>, \<open>nsqpp_bswap32_t\<close>, \<open>nsqpp_bswap64_t\<close> overlay a
  signed integer \<open>num\<close> and its bytes \<open>ptr\<close>. On the little-endian host \<open>ptr[0]\<close> is the
  least significant byte: \<open>le_value\<close> is the unsigned value of the bytes, \<open>le_bytes\<close>
  the bytes of an unsigned value.
\<close>

fun le_value :: "byte list \<Rightarrow> int" where
  "le_value [] = 0"
| "le_value (b # bs) = uint b + 256 * le_value bs"

fun le_bytes :: "nat \<Rightarrow> int \<Rightarrow> byte list" where
  "le_bytes 0 v = []"
| "le_bytes (Suc n) v = word_of_int (v mod 256) # le_bytes n (v div 256)"

definition union16_num :: "byte list \<Rightarrow> int" where
  "union16_num ptr = to_int16 (le_value ptr)"

definition union32_num :: "byte list \<Rightarrow> int" where
  "union32_num ptr = to_int32 (le_value ptr)"

definition union64_num :: "byte list \<Rightarrow> int" where
  "union64_num ptr = to_int64 (le_value ptr)"

definition union32_ptr :: "int \<Rightarrow> byte list" where
  "union32_ptr num = le_bytes 4 (to_uint32 num)"

subsection \<open>The byte-order readers\<close>

definition nsqpp_bswap16 :: "byte list \<Rightarrow> nat \<Rightarrow> fault + int" where
  "nsqpp_bswap16 m off =
     andthen (peek m (off + 1)) (\<lambda>p0.
     andthen (peek m off) (\<lambda>p1.
     Inr (to_uint16 (union16_num [p0, p1]))))"

definition nsqpp_bswap32 :: "byte list \<Rightarrow> nat \<Rightarrow> fault + int" where
  "nsqpp_bswap32 m off =
     andthen (peek m (off + 3)) (\<lambda>p0.
     andthen (peek m (off + 2)) (\<lambda>p1.
     andthen (peek m (off + 1)) (\<lambda>p2.
     andthen (peek m off) (\<lambda>p3.
     Inr (to_uint32 (union32_num [p0, p1, p2, p3]))))))"

definition nsqpp_bswap64 :: "byte list \<Rightarrow> nat \<Rightarrow> fault + int" where
  "nsqpp_bswap64 m off =
     andthen (peek m (off + 7)) (\<lambda>p0.
     andthen (peek m (off + 6)) (\<lambda>p1.
     andthen (peek m (off + 5)) (\<lambda>p2.
     andthen (peek m (off + 4)) (\<lambda>p3.
     andthen (peek m (off + 3)) (\<lambda>p4.
     andthen (peek m (off + 2)) (\<lambda>p5.
     andthen (peek m (off + 1)) (\<lambda>p6.
     andthen (peek m off) (\<lambda>p7.
     Inr (to_uint64 (union64_num [p0, p1, p2, p3, p4, p5, p6, p7]))))))))))"

subsection \<open>The Lua stack\<close>

text \<open>
  The stack is the list of its values, bottom first. \<open>lua_pushinteger\<close> converts its
  argument to \<open>lua_Integer\<close>. \<open>lua_pushlstring\<close> copies \<open>l\<close> bytes starting at offset
  \<open>off\<close> of the memory \<open>m\<close>, where \<open>l\<close> is a \<open>size_t\<close>; when those bytes are not all
  inside \<open>m\<close> the call does not return a string (Lua raises its size error for a length
  beyond its limit, and the copy reads outside the string otherwise).
  \<open>lua_replace st k\<close> is \<open>lua_replace(L, -k)\<close>: the top value is stored at the k-th
  slot from the top, then popped. A C function that returns \<open>n\<close> hands the top \<open>n\<close>
  values to Lua, in the order they were pushed.
\<close>

type_synonym lua_State = "lua_value list"

definition lua_pushinteger :: "lua_State \<Rightarrow> int \<Rightarrow> lua_State" where
  "lua_pushinteger st v = st @ [LInteger (to_int64 v)]"

definition lua_pushlstring :: "lua_State \<Rightarrow> byte list \<Rightarrow> nat \<Rightarrow> int \<Rightarrow> fault + lua_State" where
  "lua_pushlstring st m off l =
     (if int off + l \<le> int (length m)
      then Inr (st @ [LString (take (nat l) (drop off m))])
      else Inl OutOfBounds)"

definition lua_replace :: "lua_State \<Rightarrow> nat \<Rightarrow> lua_State" where
  "lua_replace st k = butlast (st[length st - k := last st])"

definition returns :: "nat \<Rightarrow> lua_State \<Rightarrow> lua_value list" where
  "returns n st = drop (length st - n) st"

subsection \<open>Frame types\<close>

definition NSQPP_FRAME_INVAL :: int where "NSQPP_FRAME_INVAL = - 2"
definition NSQPP_FRAME_PARTIAL :: int where "NSQPP_FRAME_PARTIAL = - 1"
definition NSQPP_FRAME_RESPONSE :: int where "NSQPP_FRAME_RESPONSE = 0"
definition NSQPP_FRAME_ERROR :: int where "NSQPP_FRAME_ERROR = 1"
definition NSQPP_FRAME_MESSAGE :: int where "NSQPP_FRAME_MESSAGE = 2"

subsection \<open>decodeframe\<close>

text \<open>
  The branches of the \<open>switch\<close>, each from the stack that already holds the argument,
  the frame type and the consumed byte count.
\<close>

definition push_response :: "lua_State \<Rightarrow> byte list \<Rightarrow> int \<Rightarrow> fault + lua_value list" where
  "push_response st frame payload =
     (let n = int_arith (payload - 4) in
      andthen (lua_pushlstring st frame 8 (to_size_t n)) (\<lambda>st.
      Inr (returns 3 st)))"

definition push_message :: "lua_State \<Rightarrow> byte list \<Rightarrow> int \<Rightarrow> fault + lua_value list" where
  "push_message st frame payload =
     (let n = int_arith (payload - 30) in
      andthen (lua_pushlstring st frame 34 (to_size_t n)) (\<lambda>st.
      andthen (lua_pushlstring st frame 18 16) (\<lambda>st.
      andthen (nsqpp_bswap64 frame 8) (\<lambda>ns.
      let st = lua_pushinteger st ns in
      andthen (nsqpp_bswap16 frame 10) (\<lambda>attempts.
      let st = lua_pushinteger st attempts in
      Inr (returns 6 st))))))"

definition push_invalid :: "lua_State \<Rightarrow> lua_value list" where
  "push_invalid st = returns 2 (lua_replace (lua_pushinteger st NSQPP_FRAME_INVAL) 3)"

definition decodeframe_lua :: "byte list \<Rightarrow> fault + lua_value list" where
  "decodeframe_lua data =
     (let st = [LString data];
          len = to_size_t (int (length data));
          frame = luaL_checklstring data
      in if len < 4 then
           Inr (returns 2 (lua_pushinteger (lua_pushinteger st NSQPP_FRAME_PARTIAL)
                             (to_size_t (4 - len))))
         else
           andthen (nsqpp_bswap32 frame 0) (\<lambda>r.
           let payload = to_int32 r in
           if to_size_t (len - 4) < to_size_t payload then
             Inr (returns 2 (lua_pushinteger (lua_pushinteger st NSQPP_FRAME_PARTIAL)
                               (to_size_t (to_size_t payload - to_size_t (len - 4)))))
           else
             andthen (nsqpp_bswap32 frame 4) (\<lambda>r.
             let ftype = to_int32 r;
                 consumed = int_arith (payload + 4);
                 st = lua_pushinteger (lua_pushinteger st ftype) consumed
             in if ftype = NSQPP_FRAME_RESPONSE \<or> ftype = NSQPP_FRAME_ERROR then
                  push_response st frame payload
                else if ftype = NSQPP_FRAME_MESSAGE then
                  push_message st frame payload
                else
                  Inr (push_invalid st))))"

subsection \<open>htonl\<close>

text \<open>
  \<open>htonl\<close> is the host's: it returns the \<open>uint32_t\<close> whose bytes in memory are the
  argument's in network order, most significant first. \<open>htonl_lua\<close> converts the
  \<open>lua_Integer\<close> it is given to \<open>uint32_t\<close>, stores the result in the union's \<open>num\<close> and
  pushes the four bytes \<open>ptr\<close>.
\<close>

fun be_bytes :: "nat \<Rightarrow> int \<Rightarrow> byte list" where
  "be_bytes 0 v = []"
| "be_bytes (Suc n) v = word_of_int (v div 256 ^ n mod 256) # be_bytes n v"

definition htonl :: "int \<Rightarrow> int" where
  "htonl v = le_value (be_bytes 4 v)"

definition htonl_lua :: "int \<Rightarrow> fault + lua_value list" where
  "htonl_lua len =
     (let st = [LInteger len];
          data = union32_ptr (to_int32 (htonl (to_uint32 len)))
      in andthen (lua_pushlstring st data 0 4) (\<lambda>st.
         Inr (returns 1 st)))"

subsection \<open>The wire format, as the specification reads it\<close>

text \<open>
  \<open>be_value\<close> is the unsigned big-endian value of a byte sequence, \<open>signed32\<close> the two's
  complement reading of a 32-bit value, \<open>bytes_at\<close> the bytes \<open>[off, off + n)\<close> of a buffer.
  \<open>size_field\<close> and \<open>type_field\<close> are the two header fields.
\<close>

definition be_value :: "byte list \<Rightarrow> int" where
  "be_value bs = foldl (\<lambda>acc b. acc * 256 + uint b) 0 bs"

definition signed32 :: "int \<Rightarrow> int" where
  "signed32 v = (if v < 2 ^ 31 then v else v - 2 ^ 32)"

definition bytes_at :: "byte list \<Rightarrow> nat \<Rightarrow> nat \<Rightarrow> byte list" where
  "bytes_at data off n = take n (drop off data)"

definition size_field :: "byte list \<Rightarrow> int" where
  "size_field data = signed32 (be_value (bytes_at data 0 4))"

definition type_field :: "byte list \<Rightarrow> int" where
  "type_field data = signed32 (be_value (bytes_at data 4 4))"

text \<open>
  The outcomes of the specification are the tuples returned to Lua:
  \<^item> partial: \<open>(FRAME_PARTIAL, need)\<close>;
  \<^item> invalid: \<open>(FRAME_INVAL, consumed)\<close>;
  \<^item> response and error: \<open>(type, consumed, body)\<close>;
  \<^item> message: \<open>(type, consumed, body, message id, nanoseconds, attempts)\<close>.

  \<open>result_type\<close> and \<open>result_count\<close> are the first two values of a tuple: the frame
  type and the byte count.
\<close>

definition result_type :: "lua_value list \<Rightarrow> int option" where
  "result_type rs = (case rs of LInteger t # _ \<Rightarrow> Some t | _ \<Rightarrow> None)"


section \<open>Properties\<close>

subsection \<open>Integer conversions\<close>

lemmas conv_defs =
  to_uint16_def to_uint32_def to_uint64_def to_size_t_def to_int16_def to_int32_def
  to_int64_def int_arith_def

lemmas stack_defs =
  lua_pushinteger_def lua_pushlstring_def lua_replace_def returns_def

lemmas frame_defs =
  NSQPP_FRAME_INVAL_def NSQPP_FRAME_PARTIAL_def NSQPP_FRAME_RESPONSE_def
  NSQPP_FRAME_ERROR_def NSQPP_FRAME_MESSAGE_def

lemma mod_shift_down: "(m::int) \<le> v \<Longrightarrow> v < 2 * m \<Longrightarrow> v mod m = v - m"
proof -
  assume a: "m \<le> v" "v < 2 * m"
  have "v mod m = (v - m) mod m" by (simp add: minus_mod_self2)
  also have "\<dots> = v - m" using a by (intro mod_pos_pos_trivial) simp_all
  finally show ?thesis .
qed

lemma mod_shift_up: "- (m::int) \<le> v \<Longrightarrow> v < 0 \<Longrightarrow> v mod m = v + m"
proof -
  assume a: "- m \<le> v" "v < 0"
  have "v mod m = (v + m) mod m" by simp
  also have "\<dots> = v + m" using a by (intro mod_pos_pos_trivial) simp_all
  finally show ?thesis .
qed

lemma to_int32_signed32: "0 \<le> u \<Longrightarrow> u < 2 ^ 32 \<Longrightarrow> to_int32 u = signed32 u"
proof (cases "u < 2 ^ 31")
  case True
  assume "0 \<le> u"
  with True show ?thesis by (simp add: to_int32_def signed32_def)
next
  case False
  assume "u < 2 ^ 32"
  with False have "(u + 2 ^ 31) mod 2 ^ 32 = u + 2 ^ 31 - 2 ^ 32"
    by (intro mod_shift_down) simp_all
  with False show ?thesis by (simp add: to_int32_def signed32_def)
qed

lemma signed32_range:
  "0 \<le> u \<Longrightarrow> u < 2 ^ 32 \<Longrightarrow> - (2 ^ 31) \<le> signed32 u \<and> signed32 u < 2 ^ 31"
  by (simp add: signed32_def)

lemma to_int32_range: "- (2 ^ 31) \<le> to_int32 v \<and> to_int32 v < 2 ^ 31"
proof -
  have "0 \<le> (v + 2 ^ 31) mod 2 ^ 32" by simp
  moreover have "(v + 2 ^ 31) mod 2 ^ 32 < 2 ^ 32" by simp
  ultimately show ?thesis by (simp add: to_int32_def)
qed

lemma to_uint16_int16: "to_uint16 (to_int16 u) = to_uint16 u"
proof -
  have "((u + 2 ^ 15) mod 2 ^ 16 - 2 ^ 15) mod 2 ^ 16 = (u + 2 ^ 15 - 2 ^ 15) mod 2 ^ 16"
    by (simp only: mod_diff_left_eq)
  then show ?thesis by (simp add: to_uint16_def to_int16_def)
qed

lemma to_uint32_int32: "to_uint32 (to_int32 u) = to_uint32 u"
proof -
  have "((u + 2 ^ 31) mod 2 ^ 32 - 2 ^ 31) mod 2 ^ 32 = (u + 2 ^ 31 - 2 ^ 31) mod 2 ^ 32"
    by (simp only: mod_diff_left_eq)
  then show ?thesis by (simp add: to_uint32_def to_int32_def)
qed

lemma to_uint64_int64: "to_uint64 (to_int64 u) = to_uint64 u"
proof -
  have "((u + 2 ^ 63) mod 2 ^ 64 - 2 ^ 63) mod 2 ^ 64 = (u + 2 ^ 63 - 2 ^ 63) mod 2 ^ 64"
    by (simp only: mod_diff_left_eq)
  then show ?thesis by (simp add: to_uint64_def to_int64_def)
qed

lemma size_t_id: "0 \<le> v \<Longrightarrow> v < 2 ^ 64 \<Longrightarrow> to_size_t v = v"
  unfolding to_size_t_def by simp

lemma size_t_neg: "- (2 ^ 64) \<le> v \<Longrightarrow> v < 0 \<Longrightarrow> to_size_t v = v + 2 ^ 64"
  unfolding to_size_t_def by (intro mod_shift_up) simp_all

lemma to_int64_id: "- (2 ^ 63) \<le> v \<Longrightarrow> v < 2 ^ 63 \<Longrightarrow> to_int64 v = v"
  unfolding to_int64_def by simp

lemma to_int64_id32: "- (2 ^ 31) \<le> v \<Longrightarrow> v < 2 ^ 31 \<Longrightarrow> to_int64 v = v"
  by (intro to_int64_id) simp_all

lemma to_int64_int32 [simp]: "to_int64 (to_int32 v) = to_int32 v"
  using to_int32_range [of v] by (intro to_int64_id32) simp_all

lemma to_int64_size_t: "to_int64 (to_size_t v) = to_int64 v"
  unfolding to_int64_def to_size_t_def by (simp add: mod_add_left_eq)

lemma size_t_diff: "to_size_t (to_size_t a - to_size_t b) = to_size_t (a - b)"
  unfolding to_size_t_def by (simp add: mod_diff_eq)

lemma to_int64_tags [simp]:
  "to_int64 NSQPP_FRAME_PARTIAL = NSQPP_FRAME_PARTIAL"
  "to_int64 NSQPP_FRAME_INVAL = NSQPP_FRAME_INVAL"
  "to_int64 NSQPP_FRAME_RESPONSE = NSQPP_FRAME_RESPONSE"
  "to_int64 NSQPP_FRAME_ERROR = NSQPP_FRAME_ERROR"
  "to_int64 NSQPP_FRAME_MESSAGE = NSQPP_FRAME_MESSAGE"
  by (simp_all add: to_int64_def frame_defs)

lemma int_arith_id: "- (2 ^ 31) \<le> v \<Longrightarrow> v < 2 ^ 31 \<Longrightarrow> int_arith v = v"
  by (simp add: int_arith_def to_int32_def)

lemma to_int64_int_arith [simp]: "to_int64 (int_arith v) = int_arith v"
  by (simp add: int_arith_def)

subsection \<open>Byte sequences and their values\<close>

lemma le_value_bounds: "0 \<le> le_value bs \<and> le_value bs < 256 ^ length bs"
proof (induction bs)
  case Nil
  show ?case by simp
next
  case (Cons b bs)
  have "uint b < 256" using uint_lt2p [of b] by simp
  moreover have "0 \<le> uint b" by simp
  ultimately show ?case using Cons by simp
qed

lemma be_value_snoc: "be_value (bs @ [b]) = be_value bs * 256 + uint b"
  by (simp add: be_value_def)

lemma be_value_rev: "be_value bs = le_value (rev bs)"
  by (induction bs rule: rev_induct) (simp_all add: be_value_snoc, simp add: be_value_def)

lemma be_value_bounds: "0 \<le> be_value bs \<and> be_value bs < 256 ^ length bs"
  using le_value_bounds [of "rev bs"] by (simp add: be_value_rev)

lemma foldl_be: "foldl (\<lambda>acc b. acc * 256 + uint b) a bs = a * 256 ^ length bs + be_value bs"
  unfolding be_value_def
proof (induction bs arbitrary: a)
  case Nil
  show ?case by simp
next
  case (Cons b bs)
  show ?case
    using Cons.IH [of "a * 256 + uint b"] Cons.IH [of "uint b"] by (simp add: algebra_simps)
qed

lemma be_value_Cons: "be_value (b # bs) = uint b * 256 ^ length bs + be_value bs"
  using foldl_be [of "uint b" bs] by (simp add: be_value_def)

lemma length_be_bytes [simp]: "length (be_bytes n v) = n"
  by (induction n) simp_all

lemma uint_byte_mod: "uint (word_of_int (k mod 256) :: byte) = k mod 256"
  by (simp add: uint_word_of_int take_bit_eq_mod)

lemma be_value_be_bytes: "be_value (be_bytes n v) = v mod 256 ^ n"
proof (induction n)
  case 0
  show ?case by (simp add: be_value_def)
next
  case (Suc n)
  have "v mod (256 ^ n * 256) = 256 ^ n * (v div 256 ^ n mod 256) + v mod 256 ^ n"
    by (rule zmod_zmult2_eq) simp
  then show ?case
    by (simp add: be_value_Cons uint_byte_mod Suc.IH mult.commute)
qed

lemma le_bytes_le_value: "le_bytes (length bs) (le_value bs) = bs"
proof (induction bs)
  case Nil
  show ?case by simp
next
  case (Cons b bs)
  have b: "0 \<le> uint b" "uint b < 256" using uint_lt2p [of b] by simp_all
  have "(uint b + 256 * le_value bs) mod 256 = uint b" using b by simp
  moreover have "(uint b + 256 * le_value bs) div 256 = le_value bs" using b by simp
  ultimately show ?case using Cons by simp
qed

lemma bytes_at_nth2:
  "off + 2 \<le> length m \<Longrightarrow> bytes_at m off 2 = [m ! off, m ! (off + 1)]"
  by (simp add: bytes_at_def numeral_eq_Suc take_Suc_conv_app_nth take_Suc hd_drop_conv_nth drop_Suc tl_drop add.commute)

lemma bytes_at_nth4:
  "off + 4 \<le> length m \<Longrightarrow>
   bytes_at m off 4 = [m ! off, m ! (off + 1), m ! (off + 2), m ! (off + 3)]"
  by (simp add: bytes_at_def numeral_eq_Suc take_Suc_conv_app_nth take_Suc hd_drop_conv_nth drop_Suc tl_drop add.commute)

lemma bytes_at_nth8:
  "off + 8 \<le> length m \<Longrightarrow>
   bytes_at m off 8 = [m ! off, m ! (off + 1), m ! (off + 2), m ! (off + 3),
                    m ! (off + 4), m ! (off + 5), m ! (off + 6), m ! (off + 7)]"
  by (simp add: bytes_at_def numeral_eq_Suc take_Suc_conv_app_nth take_Suc hd_drop_conv_nth drop_Suc tl_drop add.commute)

lemma bytes_at_checklstring:
  "off + n \<le> length data \<Longrightarrow> bytes_at (luaL_checklstring data) off n = bytes_at data off n"
  by (simp add: bytes_at_def luaL_checklstring_def)

lemma be32_bounds: "0 \<le> be_value (bytes_at m off 4) \<and> be_value (bytes_at m off 4) < 2 ^ 32"
proof -
  have "length (bytes_at m off 4) \<le> 4" by (simp add: bytes_at_def)
  then have "(256::int) ^ length (bytes_at m off 4) \<le> 256 ^ 4"
    by (intro power_increasing) simp_all
  then show ?thesis using be_value_bounds [of "bytes_at m off 4"] by simp
qed

lemma size_field_range: "- (2 ^ 31) \<le> size_field data \<and> size_field data < 2 ^ 31"
  unfolding size_field_def using be32_bounds [of data 0] by (intro signed32_range) simp_all

lemma type_field_range: "- (2 ^ 31) \<le> type_field data \<and> type_field data < 2 ^ 31"
  unfolding type_field_def using be32_bounds [of data 4] by (intro signed32_range) simp_all

subsection \<open>The readers return the big-endian value\<close>

lemma nsqpp_bswap16_field:
  assumes "off + 2 \<le> length m"
  shows "nsqpp_bswap16 m off = Inr (be_value (bytes_at m off 2))"
proof -
  let ?ptr = "[m ! (off + 1), m ! off]"
  have b: "0 \<le> le_value ?ptr \<and> le_value ?ptr < 2 ^ 16"
    using le_value_bounds [of ?ptr] by simp
  have "be_value (bytes_at m off 2) = le_value ?ptr"
    using assms by (simp add: bytes_at_nth2 be_value_rev)
  moreover have "to_uint16 (union16_num ?ptr) = le_value ?ptr"
    using b by (simp only: union16_num_def to_uint16_int16) (simp add: to_uint16_def)
  ultimately show ?thesis
    using assms by (simp add: nsqpp_bswap16_def peek_def andthen_def)
qed

lemma nsqpp_bswap32_field:
  assumes "off + 4 \<le> length m"
  shows "nsqpp_bswap32 m off = Inr (be_value (bytes_at m off 4))"
proof -
  let ?ptr = "[m ! (off + 3), m ! (off + 2), m ! (off + 1), m ! off]"
  have b: "0 \<le> le_value ?ptr \<and> le_value ?ptr < 2 ^ 32"
    using le_value_bounds [of ?ptr] by simp
  have "be_value (bytes_at m off 4) = le_value ?ptr"
    using assms by (simp add: bytes_at_nth4 be_value_rev)
  moreover have "to_uint32 (union32_num ?ptr) = le_value ?ptr"
    using b by (simp only: union32_num_def to_uint32_int32) (simp add: to_uint32_def)
  ultimately show ?thesis
    using assms by (simp add: nsqpp_bswap32_def peek_def andthen_def)
qed

lemma nsqpp_bswap64_field:
  assumes "off + 8 \<le> length m"
  shows "nsqpp_bswap64 m off = Inr (be_value (bytes_at m off 8))"
proof -
  let ?ptr = "[m ! (off + 7), m ! (off + 6), m ! (off + 5), m ! (off + 4),
               m ! (off + 3), m ! (off + 2), m ! (off + 1), m ! off]"
  have b: "0 \<le> le_value ?ptr \<and> le_value ?ptr < 2 ^ 64"
    using le_value_bounds [of ?ptr] by simp
  have "be_value (bytes_at m off 8) = le_value ?ptr"
    using assms by (simp add: bytes_at_nth8 be_value_rev)
  moreover have "to_uint64 (union64_num ?ptr) = le_value ?ptr"
    using b by (simp only: union64_num_def to_uint64_int64) (simp add: to_uint64_def)
  ultimately show ?thesis
    using assms by (simp add: nsqpp_bswap64_def peek_def andthen_def)
qed

lemma read_size:
  assumes "4 \<le> length data"
  shows "andthen (nsqpp_bswap32 (luaL_checklstring data) 0) f = f (be_value (bytes_at data 0 4))"
    and "to_int32 (be_value (bytes_at data 0 4)) = size_field data"
proof -
  have "nsqpp_bswap32 (luaL_checklstring data) 0 = Inr (be_value (bytes_at data 0 4))"
    using assms nsqpp_bswap32_field [of 0 "luaL_checklstring data"]
      bytes_at_checklstring [of 0 4 data]
    by (simp add: luaL_checklstring_def)
  then show "andthen (nsqpp_bswap32 (luaL_checklstring data) 0) f = f (be_value (bytes_at data 0 4))"
    by (simp add: andthen_def)
  show "to_int32 (be_value (bytes_at data 0 4)) = size_field data"
    using be32_bounds [of data 0] by (simp add: size_field_def to_int32_signed32)
qed

lemma read_type:
  assumes "8 \<le> length data"
  shows "nsqpp_bswap32 (luaL_checklstring data) 4 = Inr (be_value (bytes_at data 4 4))"
    and "to_int32 (be_value (bytes_at data 4 4)) = type_field data"
proof -
  show "nsqpp_bswap32 (luaL_checklstring data) 4 = Inr (be_value (bytes_at data 4 4))"
    using assms nsqpp_bswap32_field [of 4 "luaL_checklstring data"]
      bytes_at_checklstring [of 4 4 data]
    by (simp add: luaL_checklstring_def)
  show "to_int32 (be_value (bytes_at data 4 4)) = type_field data"
    using be32_bounds [of data 4] by (simp add: type_field_def to_int32_signed32)
qed

subsection \<open>The branches of the switch\<close>

lemma andthen_simps [simp]:
  "andthen (Inr v) f = f v"
  "andthen (Inl e) f = Inl e"
  by (simp_all add: andthen_def)

lemma pushlstring_checklstring:
  assumes "0 \<le> l" "int off + l \<le> int (length data)"
  shows "lua_pushlstring st (luaL_checklstring data) off l =
         Inr (st @ [LString (bytes_at data off (nat l))])"
  using assms by (simp add: lua_pushlstring_def luaL_checklstring_def bytes_at_def)

lemma pushlstring_negative:
  assumes "- (2 ^ 31) \<le> n" "n < 0" "length data < 2 ^ 63"
  shows "lua_pushlstring st (luaL_checklstring data) off (to_size_t n) = Inl OutOfBounds"
proof -
  have "to_size_t n = n + 2 ^ 64"
    using assms by (intro size_t_neg) simp_all
  moreover have "int (length data) < 2 ^ 63"
    using assms(3) by (simp add: of_nat_less_iff [of "length data" "2 ^ 63", simplified])
  ultimately show ?thesis
    using assms by (simp add: lua_pushlstring_def luaL_checklstring_def)
qed

lemma push_invalid_eval:
  "push_invalid [a, LInteger t, LInteger c] = [LInteger NSQPP_FRAME_INVAL, LInteger c]"
  by (simp add: push_invalid_def stack_defs)

lemma push_response_eval:
  assumes "4 \<le> payload" "payload + 4 \<le> int (length data)" "payload < 2 ^ 31"
  shows "push_response [a, t, c] (luaL_checklstring data) payload =
         Inr [t, c, LString (bytes_at data 8 (nat (payload - 4)))]"
proof -
  have "to_size_t (payload - 4) = payload - 4"
    using assms by (intro size_t_id) simp_all
  moreover have "lua_pushlstring [a, t, c] (luaL_checklstring data) 8 (payload - 4) =
      Inr ([a, t, c] @ [LString (bytes_at data 8 (nat (payload - 4)))])"
    using assms by (intro pushlstring_checklstring) simp_all
  moreover have "int_arith (payload - 4) = payload - 4"
    using assms by (intro int_arith_id) simp_all
  ultimately show ?thesis
    by (simp add: push_response_def Let_def returns_def)
qed

lemma push_response_undersized:
  assumes "0 \<le> payload" "payload < 4" "length data < 2 ^ 63"
  shows "push_response st (luaL_checklstring data) payload = Inl OutOfBounds"
proof -
  have "lua_pushlstring st (luaL_checklstring data) 8 (to_size_t (payload - 4)) = Inl OutOfBounds"
    using assms by (intro pushlstring_negative) simp_all
  moreover have "int_arith (payload - 4) = payload - 4"
    using assms by (intro int_arith_id) simp_all
  ultimately show ?thesis
    by (simp add: push_response_def Let_def)
qed

lemma push_message_undersized:
  assumes "0 \<le> payload" "payload < 30" "length data < 2 ^ 63"
  shows "push_message st (luaL_checklstring data) payload = Inl OutOfBounds"
proof -
  have "lua_pushlstring st (luaL_checklstring data) 34 (to_size_t (payload - 30)) = Inl OutOfBounds"
    using assms by (intro pushlstring_negative) simp_all
  moreover have "int_arith (payload - 30) = payload - 30"
    using assms by (intro int_arith_id) simp_all
  ultimately show ?thesis
    by (simp add: push_message_def Let_def)
qed

lemma push_message_eval:
  assumes "30 \<le> payload" "payload + 4 \<le> int (length data)" "payload < 2 ^ 31"
  shows "push_message [a, t, c] (luaL_checklstring data) payload =
         Inr [t, c, LString (bytes_at data 34 (nat (payload - 30))), LString (bytes_at data 18 16),
              LInteger (to_int64 (be_value (bytes_at data 8 8))),
              LInteger (be_value (bytes_at data 10 2))]"
proof -
  let ?frame = "luaL_checklstring data"
  let ?body = "LString (bytes_at data 34 (nat (payload - 30)))"
  let ?id = "LString (bytes_at data 18 16)"
  have len: "34 \<le> length data" using assms by simp
  have n: "to_size_t (payload - 30) = payload - 30"
    using assms by (intro size_t_id) simp_all
  have body: "lua_pushlstring [a, t, c] ?frame 34 (payload - 30) = Inr ([a, t, c] @ [?body])"
    using assms by (intro pushlstring_checklstring) simp_all
  have ident: "lua_pushlstring [a, t, c, ?body] ?frame 18 16 = Inr ([a, t, c, ?body] @ [?id])"
    using pushlstring_checklstring [of 16 18 data "[a, t, c, ?body]"] len by simp
  have ns: "nsqpp_bswap64 ?frame 8 = Inr (be_value (bytes_at data 8 8))"
    using len nsqpp_bswap64_field [of 8 ?frame] bytes_at_checklstring [of 8 8 data]
    by (simp add: luaL_checklstring_def)
  have att: "nsqpp_bswap16 ?frame 10 = Inr (be_value (bytes_at data 10 2))"
    using len nsqpp_bswap16_field [of 10 ?frame] bytes_at_checklstring [of 10 2 data]
    by (simp add: luaL_checklstring_def)
  have "length (bytes_at data 10 2) \<le> 2" by (simp add: bytes_at_def)
  then have "(256::int) ^ length (bytes_at data 10 2) \<le> 256 ^ 2"
    by (intro power_increasing) simp_all
  then have "to_int64 (be_value (bytes_at data 10 2)) = be_value (bytes_at data 10 2)"
    using be_value_bounds [of "bytes_at data 10 2"] by (intro to_int64_id) simp_all
  moreover have "int_arith (payload - 30) = payload - 30"
    using assms by (intro int_arith_id) simp_all
  ultimately show ?thesis
    by (simp add: push_message_def Let_def n body ident ns att lua_pushinteger_def returns_def)
qed

lemma push_response_shape:
  "push_response [a, t, c] frame payload = Inr rs \<Longrightarrow> \<exists>b. rs = [t, c, b]"
  by (auto simp add: push_response_def andthen_def stack_defs Let_def
      split: if_splits sum.splits)

lemma push_message_shape:
  "push_message [a, t, c] frame payload = Inr rs \<Longrightarrow> \<exists>b i n k. rs = [t, c, b, i, n, k]"
  by (auto simp add: push_message_def andthen_def stack_defs Let_def
      split: if_splits sum.splits)

subsection \<open>decodeframe, branch by branch\<close>

lemma decode_short:
  "length data < 4 \<Longrightarrow>
   decodeframe_lua data = Inr [LInteger NSQPP_FRAME_PARTIAL, LInteger (4 - int (length data))]"
  by (simp add: decodeframe_lua_def Let_def conv_defs stack_defs frame_defs)

lemma decode_raw:
  assumes "\<not> to_size_t (int (length data)) < 4"
  shows "decodeframe_lua data =
    (if to_size_t (to_size_t (int (length data)) - 4) < to_size_t (size_field data) then
       Inr [LInteger NSQPP_FRAME_PARTIAL,
            LInteger (to_int64 (size_field data - (to_size_t (int (length data)) - 4)))]
     else
       andthen (nsqpp_bswap32 (luaL_checklstring data) 4) (\<lambda>r.
       let st = [LString data, LInteger (to_int32 r),
                 LInteger (int_arith (size_field data + 4))] in
       if to_int32 r = NSQPP_FRAME_RESPONSE \<or> to_int32 r = NSQPP_FRAME_ERROR then
         push_response st (luaL_checklstring data) (size_field data)
       else if to_int32 r = NSQPP_FRAME_MESSAGE then
         push_message st (luaL_checklstring data) (size_field data)
       else Inr (push_invalid st)))"
proof -
  have "\<not> int (length data) < 4"
  proof
    assume "int (length data) < 4"
    then have "to_size_t (int (length data)) = int (length data)"
      by (intro size_t_id) simp_all
    with \<open>int (length data) < 4\<close> assms show False by simp
  qed
  then have len4: "4 \<le> length data" by simp
  have need: "\<And>a b. to_int64 (to_size_t (to_size_t a - to_size_t b)) = to_int64 (a - b)"
    by (simp only: size_t_diff to_int64_size_t)
  show ?thesis
    unfolding decodeframe_lua_def Let_def read_size [OF len4]
    using assms
    by (simp add: lua_pushinteger_def returns_def need cong: if_cong)
qed

text \<open>
  From here on a buffer is shorter than \<open>2 ^ 63\<close> bytes, as every Lua string is, so
  that its length is a \<open>size_t\<close> and a \<open>lua_Integer\<close>.
\<close>

lemma decode_partial:
  assumes len: "4 \<le> length data" "length data < 2 ^ 63"
    and short: "int (length data) - 4 < to_size_t (size_field data)"
  shows "decodeframe_lua data =
    Inr [LInteger NSQPP_FRAME_PARTIAL,
         LInteger (to_int64 (size_field data - (int (length data) - 4)))]"
proof -
  have l: "to_size_t (int (length data)) = int (length data)"
    using len by (intro size_t_id) simp_all
  have l4: "to_size_t (int (length data) - 4) = int (length data) - 4"
    using len by (intro size_t_id) simp_all
  have "\<not> to_size_t (int (length data)) < 4" using len l by simp
  from decode_raw [OF this] short show ?thesis by (simp add: l l4)
qed

lemma decode_complete:
  assumes len: "8 \<le> length data" "length data < 2 ^ 63"
    and full: "\<not> int (length data) - 4 < to_size_t (size_field data)"
  shows "decodeframe_lua data =
     (let st = [LString data, LInteger (type_field data),
                LInteger (int_arith (size_field data + 4))] in
      if type_field data = NSQPP_FRAME_RESPONSE \<or> type_field data = NSQPP_FRAME_ERROR then
        push_response st (luaL_checklstring data) (size_field data)
      else if type_field data = NSQPP_FRAME_MESSAGE then
        push_message st (luaL_checklstring data) (size_field data)
      else Inr (push_invalid st))"
proof -
  have l: "to_size_t (int (length data)) = int (length data)"
    using len by (intro size_t_id) simp_all
  have l4: "to_size_t (int (length data) - 4) = int (length data) - 4"
    using len by (intro size_t_id) simp_all
  have "\<not> to_size_t (int (length data)) < 4" using len l by simp
  from decode_raw [OF this] full show ?thesis
    by (simp add: l l4 read_type [OF len(1)] cong: if_cong)
qed

lemma size_t_size_field:
  "0 \<le> size_field data \<Longrightarrow> to_size_t (size_field data) = size_field data"
  using size_field_range [of data] by (intro size_t_id) simp_all

text \<open>
  The need reported for an incomplete payload is the exact shortfall.
\<close>

lemma partial_need_exact:
  assumes "length data = 4 + k" "length data < 2 ^ 63"
    and "0 \<le> size_field data" "int k < size_field data"
  shows "decodeframe_lua data =
         Inr [LInteger NSQPP_FRAME_PARTIAL, LInteger (size_field data - int k)]"
proof -
  have "to_int64 (size_field data - int k) = size_field data - int k"
    using assms size_field_range [of data] by (intro to_int64_id) simp_all
  moreover have "4 \<le> length data" using assms by simp
  ultimately show ?thesis
    using decode_partial [of data] assms by (simp add: size_t_size_field)
qed

text \<open>
  What the code returns for a message frame whose size covers the fixed fields: the
  attempts value is read at offset 10.
\<close>

lemma decode_message:
  assumes "length data < 2 ^ 63"
    and "size_field data = 30 + int n" "34 + n \<le> length data"
    and "type_field data = NSQPP_FRAME_MESSAGE" "34 + int n < 2 ^ 31"
  shows "decodeframe_lua data =
         Inr [LInteger NSQPP_FRAME_MESSAGE, LInteger (34 + int n),
              LString (bytes_at data 34 n), LString (bytes_at data 18 16),
              LInteger (to_int64 (be_value (bytes_at data 8 8))),
              LInteger (be_value (bytes_at data 10 2))]"
proof -
  have "to_size_t (size_field data) = size_field data"
    using assms by (intro size_t_size_field) simp
  then have full: "\<not> int (length data) - 4 < to_size_t (size_field data)"
    using assms by simp
  have "push_message [LString data, LInteger NSQPP_FRAME_MESSAGE, LInteger (34 + int n)]
          (luaL_checklstring data) (30 + int n) =
        Inr [LInteger NSQPP_FRAME_MESSAGE, LInteger (34 + int n),
             LString (bytes_at data 34 (nat (30 + int n - 30))), LString (bytes_at data 18 16),
             LInteger (to_int64 (be_value (bytes_at data 8 8))),
             LInteger (be_value (bytes_at data 10 2))]"
    using assms by (intro push_message_eval) simp_all
  moreover have "int_arith (30 + int n + 4) = 34 + int n"
    using assms by (simp add: int_arith_id)
  ultimately show ?thesis
    using assms decode_complete [OF _ assms(1) full]
    by (simp add: frame_defs)
qed

text \<open>
  A complete frame whose size is below the fixed part of its type makes the length
  handed to \<open>lua_pushlstring\<close> negative, hence a huge \<open>size_t\<close>: no tuple is returned.
\<close>

lemma decode_undersized:
  assumes "8 \<le> length data" "length data < 2 ^ 63"
    and "0 \<le> size_field data" "size_field data + 4 \<le> int (length data)"
    and "(type_field data = NSQPP_FRAME_RESPONSE \<or> type_field data = NSQPP_FRAME_ERROR)
           \<and> size_field data < 4
         \<or> type_field data = NSQPP_FRAME_MESSAGE \<and> size_field data < 30"
  shows "decodeframe_lua data = Inl OutOfBounds"
proof -
  have full: "\<not> int (length data) - 4 < to_size_t (size_field data)"
    using assms by (simp add: size_t_size_field)
  show ?thesis
    using assms decode_complete [OF assms(1) assms(2) full]
    by (auto simp add: push_response_undersized push_message_undersized frame_defs)
qed

text \<open>
  The count of a complete frame of an unknown type is \<open>size + 4\<close> computed in 32 bits.
\<close>

lemma decode_invalid_wrapped:
  assumes "8 \<le> length data" "length data < 2 ^ 63"
    and "0 \<le> size_field data" "size_field data + 4 \<le> int (length data)"
    and "type_field data \<noteq> NSQPP_FRAME_RESPONSE" "type_field data \<noteq> NSQPP_FRAME_ERROR"
      "type_field data \<noteq> NSQPP_FRAME_MESSAGE"
  shows "decodeframe_lua data =
         Inr [LInteger NSQPP_FRAME_INVAL, LInteger (int_arith (size_field data + 4))]"
proof -
  have full: "\<not> int (length data) - 4 < to_size_t (size_field data)"
    using assms by (simp add: size_t_size_field)
  show ?thesis
    using assms decode_complete [OF assms(1) assms(2) full]
    by (simp add: push_invalid_eval)
qed

lemma decode_invalid:
  assumes "8 \<le> length data" "length data < 2 ^ 63"
    and "0 \<le> size_field data" "size_field data + 4 \<le> int (length data)"
    and "size_field data + 4 < 2 ^ 31"
    and "type_field data \<noteq> NSQPP_FRAME_RESPONSE" "type_field data \<noteq> NSQPP_FRAME_ERROR"
      "type_field data \<noteq> NSQPP_FRAME_MESSAGE"
  shows "decodeframe_lua data = Inr [LInteger NSQPP_FRAME_INVAL, LInteger (size_field data + 4)]"
proof -
  have "int_arith (size_field data + 4) = size_field data + 4"
    using assms by (intro int_arith_id) simp_all
  with decode_invalid_wrapped [OF assms(1-4) assms(6-8)] show ?thesis by simp
qed

lemma decode_response:
  assumes "length data < 2 ^ 63"
    and "size_field data = 4 + int n" "8 + n \<le> length data"
    and "type_field data = NSQPP_FRAME_RESPONSE" "8 + int n < 2 ^ 31"
  shows "decodeframe_lua data =
         Inr [LInteger NSQPP_FRAME_RESPONSE, LInteger (8 + int n), LString (bytes_at data 8 n)]"
proof -
  have "to_size_t (size_field data) = size_field data"
    using assms by (intro size_t_size_field) simp
  then have full: "\<not> int (length data) - 4 < to_size_t (size_field data)"
    using assms by simp
  have "push_response [LString data, LInteger NSQPP_FRAME_RESPONSE, LInteger (8 + int n)]
          (luaL_checklstring data) (4 + int n) =
        Inr [LInteger NSQPP_FRAME_RESPONSE, LInteger (8 + int n),
             LString (bytes_at data 8 (nat (4 + int n - 4)))]"
    using assms by (intro push_response_eval) simp_all
  moreover have "int_arith (4 + int n + 4) = 8 + int n"
    using assms by (simp add: int_arith_id)
  ultimately show ?thesis
    using assms decode_complete [OF _ assms(1) full]
    by simp
qed

text \<open>
  Past the two length checks every tuple returned starts with one of the four frame
  tags other than the partial one, followed by \<open>size + 4\<close> computed in 32 bits.
\<close>

lemma decode_complete_shape:
  assumes nl: "\<not> to_size_t (int (length data)) < 4"
    and ns: "\<not> to_size_t (to_size_t (int (length data)) - 4) < to_size_t (size_field data)"
    and rs: "decodeframe_lua data = Inr rs"
  shows "\<exists>t rest. rs = LInteger t # LInteger (int_arith (size_field data + 4)) # rest \<and>
           (t = NSQPP_FRAME_INVAL \<or> t = NSQPP_FRAME_RESPONSE \<or> t = NSQPP_FRAME_ERROR
            \<or> t = NSQPP_FRAME_MESSAGE)"
proof -
  note raw = decode_raw [OF nl]
  from ns raw rs obtain r where
    r: "nsqpp_bswap32 (luaL_checklstring data) 4 = Inr r"
    by (cases "nsqpp_bswap32 (luaL_checklstring data) 4") simp_all
  let ?st = "[LString data, LInteger (to_int32 r), LInteger (int_arith (size_field data + 4))]"
  from ns raw rs r have
    sw: "(if to_int32 r = NSQPP_FRAME_RESPONSE \<or> to_int32 r = NSQPP_FRAME_ERROR then
           push_response ?st (luaL_checklstring data) (size_field data)
         else if to_int32 r = NSQPP_FRAME_MESSAGE then
           push_message ?st (luaL_checklstring data) (size_field data)
         else Inr (push_invalid ?st)) = Inr rs"
    by simp
  show ?thesis
  proof (cases "to_int32 r = NSQPP_FRAME_RESPONSE \<or> to_int32 r = NSQPP_FRAME_ERROR")
    case True
    with sw have "push_response ?st (luaL_checklstring data) (size_field data) = Inr rs"
      by simp
    from push_response_shape [OF this] True show ?thesis by auto
  next
    case nr: False
    show ?thesis
    proof (cases "to_int32 r = NSQPP_FRAME_MESSAGE")
      case True
      with sw nr have "push_message ?st (luaL_checklstring data) (size_field data) = Inr rs"
        by simp
      from push_message_shape [OF this] True show ?thesis by auto
    next
      case False
      with sw nr have "rs = push_invalid ?st" by simp
      then show ?thesis by (simp add: push_invalid_eval)
    qed
  qed
qed


lemma decode_tag_cases:
  assumes "decodeframe_lua data = Inr rs"
  shows "result_type rs \<in> {Some NSQPP_FRAME_INVAL, Some NSQPP_FRAME_PARTIAL,
           Some NSQPP_FRAME_RESPONSE, Some NSQPP_FRAME_ERROR, Some NSQPP_FRAME_MESSAGE}"
proof (cases "to_size_t (int (length data)) < 4")
  case True
  then show ?thesis
    using assms by (auto simp add: decodeframe_lua_def Let_def stack_defs result_type_def)
next
  case nl: False
  show ?thesis
  proof (cases "to_size_t (to_size_t (int (length data)) - 4) < to_size_t (size_field data)")
    case True
    with decode_raw [OF nl] assms show ?thesis
      by (auto simp add: result_type_def)
  next
    case False
    from decode_complete_shape [OF nl False assms] show ?thesis
      by (auto simp add: result_type_def)
  qed
qed

text \<open>
  Once the bytes announced by the size field are all there, the answer is never the
  partial one: it is one of the four other tuples, or no tuple at all.
\<close>

lemma complete_never_partial:
  assumes "4 \<le> length data" "length data < 2 ^ 63"
    and "0 \<le> size_field data" "size_field data + 4 \<le> int (length data)"
    and "decodeframe_lua data = Inr rs"
  shows "result_type rs \<in> {Some NSQPP_FRAME_INVAL, Some NSQPP_FRAME_RESPONSE,
           Some NSQPP_FRAME_ERROR, Some NSQPP_FRAME_MESSAGE}"
proof -
  have l: "to_size_t (int (length data)) = int (length data)"
    using assms by (intro size_t_id) simp_all
  have l4: "to_size_t (int (length data) - 4) = int (length data) - 4"
    using assms by (intro size_t_id) simp_all
  have nl: "\<not> to_size_t (int (length data)) < 4" using assms l by simp
  have ns: "\<not> to_size_t (to_size_t (int (length data)) - 4) < to_size_t (size_field data)"
    using assms by (simp add: l l4 size_t_size_field)
  from decode_complete_shape [OF nl ns assms(5)] show ?thesis
    by (auto simp add: result_type_def)
qed


subsection \<open>htonl\<close>

lemma htonl_lua_bytes: "htonl_lua n = Inr [LString (be_bytes 4 (n mod 2 ^ 32))]"
proof -
  let ?bs = "be_bytes 4 (to_uint32 n)"
  have b: "0 \<le> le_value ?bs \<and> le_value ?bs < 2 ^ 32"
    using le_value_bounds [of ?bs] by simp
  have "union32_ptr (to_int32 (htonl (to_uint32 n))) = le_bytes 4 (le_value ?bs)"
    using b by (simp add: union32_ptr_def htonl_def to_uint32_int32) (simp add: to_uint32_def)
  also have "\<dots> = ?bs"
    using le_bytes_le_value [of ?bs] by simp
  finally show ?thesis
    by (simp add: htonl_lua_def Let_def lua_pushlstring_def returns_def to_uint32_def)
qed

lemma bswap32_be_bytes:
  assumes "0 \<le> u" "u < 2 ^ 32"
  shows "nsqpp_bswap32 (be_bytes 4 u) 0 = Inr u"
proof -
  have "bytes_at (be_bytes 4 u) 0 4 = be_bytes 4 u" by (simp add: bytes_at_def)
  moreover have "be_value (be_bytes 4 u) = u"
    using assms by (simp add: be_value_be_bytes)
  ultimately show ?thesis
    using nsqpp_bswap32_field [of 0 "be_bytes 4 u"] by simp
qed

section \<open>The claims\<close>

text \<open>
  C1. A well-formed message frame (size \<open>30 + n\<close>, type 2) is to be decoded into its
  timestamp (offset 8), its attempts (offset 16), its id (bytes 18 to 34) and its body
  (from 34 on), with \<open>34 + n\<close> bytes consumed. The code reads the attempts at offset
  10, inside the timestamp (see \<open>decode_message\<close>). The frame below has timestamp
  1500000000000000000, attempts 1, the id \<open>0123456789abcdef\<close> and the body \<open>X\<close>: the
  tuple returned carries 4621, the bytes 18 and 13 of the timestamp, as attempts.
\<close>

theorem message_attempts_read_at_offset_10:
  "be_value (bytes_at [0, 0, 0, 31, 0, 0, 0, 2, 20, 209, 18, 13, 123, 22, 0, 0, 0, 1,
             48, 49, 50, 51, 52, 53, 54, 55, 56, 57, 97, 98, 99, 100, 101, 102, 88] 16 2) = 1
   \<and> decodeframe_lua [0, 0, 0, 31, 0, 0, 0, 2, 20, 209, 18, 13, 123, 22, 0, 0, 0, 1,
             48, 49, 50, 51, 52, 53, 54, 55, 56, 57, 97, 98, 99, 100, 101, 102, 88]
     = Inr [LInteger 2, LInteger 35, LString [88],
            LString [48, 49, 50, 51, 52, 53, 54, 55, 56, 57, 97, 98, 99, 100, 101, 102],
            LInteger 1500000000000000000, LInteger 4621]"
  by code_simp

text \<open>
  C2. A complete frame whose size is below the fixed part of its type (4 for a response
  or an error, 30 for a message) is to be answered with the invalid tag. The code has no
  such check: the body length \<open>size - 4\<close> or \<open>size - 30\<close> is negative and reaches
  \<open>lua_pushlstring\<close> as a huge \<open>size_t\<close> (see \<open>decode_undersized\<close>). Below, a message
  frame of size 4 and an error frame of size 3: neither returns a tuple.
\<close>

theorem undersized_frame_not_invalid:
  "decodeframe_lua [0, 0, 0, 4, 0, 0, 0, 2] = Inl OutOfBounds
   \<and> decodeframe_lua [0, 0, 0, 3, 0, 0, 0, 1] = Inl OutOfBounds"
  by code_simp

text \<open>
  C3. A complete frame of a type other than 0, 1 and 2 is answered with the invalid tag
  and \<open>size + 4\<close>, never with the partial tag. The tuple has these two values only:
  \<open>lua_replace\<close> overwrites the decoded type with the tag, so the type is not returned.
  The sizes covered are those for which \<open>size + 4\<close> is an \<open>int\<close>.
\<close>

theorem unknown_type_invalid:
  assumes "8 \<le> length data" "length data < 2 ^ 63"
    and "0 \<le> size_field data" "size_field data + 4 \<le> int (length data)"
    and "size_field data + 4 < 2 ^ 31"
    and "type_field data \<notin> {NSQPP_FRAME_RESPONSE, NSQPP_FRAME_ERROR, NSQPP_FRAME_MESSAGE}"
  shows "decodeframe_lua data = Inr [LInteger NSQPP_FRAME_INVAL, LInteger (size_field data + 4)]"
  using assms by (intro decode_invalid) simp_all

theorem unknown_type_invalid_witness:
  "8 \<le> length [0, 0, 0, 4, 0, 0, 0, 99 :: byte]
   \<and> size_field [0, 0, 0, 4, 0, 0, 0, 99] = 4
   \<and> type_field [0, 0, 0, 4, 0, 0, 0, 99] = 99
   \<and> decodeframe_lua [0, 0, 0, 4, 0, 0, 0, 99] = Inr [LInteger NSQPP_FRAME_INVAL, LInteger 8]"
proof -
  have s: "size_field [0, 0, 0, 4, 0, 0, 0, 99] = 4" by code_simp
  have t: "type_field [0, 0, 0, 4, 0, 0, 0, 99] = 99" by code_simp
  show ?thesis
    using unknown_type_invalid [of "[0, 0, 0, 4, 0, 0, 0, 99]"] s t
    by (simp add: frame_defs)
qed

text \<open>
  The claim as written fails: the frames of type 99 and of type 98 are answered with the
  same tuple, which holds neither type.
\<close>

theorem unknown_type_code_dropped:
  "type_field [0, 0, 0, 4, 0, 0, 0, 99] = 99
   \<and> decodeframe_lua [0, 0, 0, 4, 0, 0, 0, 99] = Inr [LInteger (- 2), LInteger 8]
   \<and> type_field [0, 0, 0, 4, 0, 0, 0, 98] = 98
   \<and> decodeframe_lua [0, 0, 0, 4, 0, 0, 0, 98] = Inr [LInteger (- 2), LInteger 8]"
  by code_simp

text \<open>
  C4. A buffer shorter than four bytes, the empty one included, is answered with
  the partial tag and \<open>4 - len\<close>, the number of bytes missing from the size field.
\<close>

theorem short_buffer_partial:
  "length data < 4 \<Longrightarrow>
   decodeframe_lua data = Inr [LInteger NSQPP_FRAME_PARTIAL, LInteger (4 - int (length data))]"
  by (rule decode_short)

theorem short_buffer_partial_witness:
  "length [1, 2 :: byte] < 4 \<and>
   decodeframe_lua [1, 2] = Inr [LInteger NSQPP_FRAME_PARTIAL, LInteger 2]"
  using short_buffer_partial [of "[1, 2]"] by simp

text \<open>
  C5. A buffer of \<open>4 + k\<close> bytes with \<open>k < size\<close> is answered with the partial tag and
  \<open>size - k\<close> (this half holds, see \<open>partial_need_exact\<close>), and decoding again once
  exactly that many bytes are appended is to give an outcome that is not partial. It
  does not when the completed frame is undersized: after \<open>[0, 0, 0, 4]\<close> the code asks
  for 4 bytes, and with the 4 bytes of a message type appended no tuple is returned.
\<close>

theorem partial_then_no_outcome:
  "decodeframe_lua [0, 0, 0, 4] = Inr [LInteger NSQPP_FRAME_PARTIAL, LInteger 4]
   \<and> length [0, 0, 0, 2 :: byte] = 4
   \<and> decodeframe_lua ([0, 0, 0, 4] @ [0, 0, 0, 2]) = Inl OutOfBounds"
  by code_simp

text \<open>
  C6. Round trip: the four bytes that \<open>htonl\<close> returns for a count in \<open>[0, 2^31)\<close> are
  read back by the 32-bit reader as that count, also as the signed size field.
\<close>

theorem length_prefix_roundtrip:
  assumes "0 \<le> n" "n < 2 ^ 31"
  shows "\<exists>bs. htonl_lua n = Inr [LString bs] \<and> length bs = 4
          \<and> nsqpp_bswap32 bs 0 = Inr n \<and> size_field bs = n"
proof -
  have m: "n mod 2 ^ 32 = n" using assms by simp
  have r: "nsqpp_bswap32 (be_bytes 4 n) 0 = Inr n"
    using assms by (intro bswap32_be_bytes) simp_all
  have "bytes_at (be_bytes 4 n) 0 4 = be_bytes 4 n" by (simp add: bytes_at_def)
  moreover have "be_value (be_bytes 4 n) = n"
    using assms by (simp add: be_value_be_bytes)
  ultimately have "size_field (be_bytes 4 n) = n"
    using assms by (simp add: size_field_def signed32_def)
  moreover have "htonl_lua n = Inr [LString (be_bytes 4 n)]"
    by (simp only: htonl_lua_bytes m)
  ultimately show ?thesis using r by simp
qed

theorem length_prefix_roundtrip_witness:
  "(0::int) \<le> 1000 \<and> (1000::int) < 2 ^ 31
   \<and> (\<exists>bs. htonl_lua 1000 = Inr [LString bs] \<and> length bs = 4
          \<and> nsqpp_bswap32 bs 0 = Inr 1000 \<and> size_field bs = 1000)"
  using length_prefix_roundtrip [of 1000] by simp

text \<open>
  C7. The encoder has no range check and no error return: for every integer it returns
  the four big-endian bytes of the value modulo \<open>2^32\<close>. A negative count and a count
  of more than 32 bits are wrapped.
\<close>

theorem htonl_lua_wraps:
  "\<exists>bs. htonl_lua n = Inr [LString bs] \<and> length bs = 4 \<and> be_value bs = n mod 2 ^ 32"
  by (simp add: htonl_lua_bytes be_value_be_bytes)

text \<open>
  The claim as written fails: \<open>-1\<close> and \<open>2^32 + 1\<close> are encoded, as \<open>2^32 - 1\<close> and as 1.
\<close>

theorem htonl_lua_no_range_error:
  "htonl_lua (- 1) = Inr [LString [255, 255, 255, 255]]
   \<and> htonl_lua 4294967297 = Inr [LString [0, 0, 0, 1]]"
  by code_simp

text \<open>
  C8. A well-formed response frame (size \<open>4 + n\<close>, type 0) is answered with the
  response tag, the body, which is the \<open>n\<close> bytes from offset 8, and the count
  \<open>8 + n\<close>, that is \<open>size + 4\<close>; the buffer \<open>[0,0,0,6, 0,0,0,0, 'O','K']\<close> gives the body
  \<open>OK\<close> and the count 10. The sizes covered are those for which \<open>size + 4\<close> is an \<open>int\<close>.
\<close>

theorem response_frame:
  assumes "length data < 2 ^ 63"
    and "size_field data = 4 + int n" "8 + n \<le> length data"
    and "type_field data = NSQPP_FRAME_RESPONSE" "8 + int n < 2 ^ 31"
  shows "decodeframe_lua data =
         Inr [LInteger NSQPP_FRAME_RESPONSE, LInteger (8 + int n), LString (bytes_at data 8 n)]"
  using assms by (rule decode_response)

theorem response_frame_witness:
  "size_field [0, 0, 0, 6, 0, 0, 0, 0, 79, 75] = 4 + int 2
   \<and> type_field [0, 0, 0, 6, 0, 0, 0, 0, 79, 75] = NSQPP_FRAME_RESPONSE
   \<and> decodeframe_lua [0, 0, 0, 6, 0, 0, 0, 0, 79, 75] =
       Inr [LInteger NSQPP_FRAME_RESPONSE, LInteger 10, LString [79, 75]]"
proof -
  have s: "size_field [0, 0, 0, 6, 0, 0, 0, 0, 79, 75] = 4 + int 2" by code_simp
  have t: "type_field [0, 0, 0, 6, 0, 0, 0, 0, 79, 75] = NSQPP_FRAME_RESPONSE" by code_simp
  have f: "bytes_at [0, 0, 0, 6, 0, 0, 0, 0, 79, 75 :: byte] 8 2 = [79, 75]" by code_simp
  show ?thesis
    using response_frame [of "[0, 0, 0, 6, 0, 0, 0, 0, 79, 75]" 2, OF _ s _ t] s t f
    by simp
qed

text \<open>
  The claim as written fails on its own example: with \<open>n = 2\<close> the count is 10, not
  \<open>4 + n = 6\<close>.
\<close>

theorem response_count_not_4_plus_n:
  "size_field [0, 0, 0, 6, 0, 0, 0, 0, 79, 75] = 4 + 2
   \<and> type_field [0, 0, 0, 6, 0, 0, 0, 0, 79, 75] = 0
   \<and> decodeframe_lua [0, 0, 0, 6, 0, 0, 0, 0, 79, 75] =
       Inr [LInteger 0, LInteger 10, LString [79, 75]]
   \<and> decodeframe_lua [0, 0, 0, 6, 0, 0, 0, 0, 79, 75] \<noteq>
       Inr [LInteger 0, LInteger (4 + 2), LString [79, 75]]"
  by code_simp




text \<open>
  C10. A buffer of at least four bytes whose size field is negative is always answered
  with the partial tag: converted to \<open>size_t\<close> the size is at least \<open>2^64 - 2^31\<close>, above
  every \<open>len - 4\<close>.
\<close>

theorem negative_size_partial:
  assumes "4 \<le> length data" "length data < 2 ^ 63" "size_field data < 0"
  shows "\<exists>need. decodeframe_lua data = Inr [LInteger NSQPP_FRAME_PARTIAL, LInteger need]"
proof -
  have "to_size_t (size_field data) = size_field data + 2 ^ 64"
    using assms size_field_range [of data] by (intro size_t_neg) simp_all
  moreover have "int (length data) < 2 ^ 63"
    using assms(2) by (simp add: of_nat_less_iff [of "length data" "2 ^ 63", simplified])
  ultimately have "int (length data) - 4 < to_size_t (size_field data)"
    using size_field_range [of data] by simp
  from decode_partial [OF assms(1) assms(2) this] show ?thesis by simp
qed

theorem negative_size_partial_witness:
  "4 \<le> length [255, 255, 255, 255, 7 :: byte]
   \<and> size_field [255, 255, 255, 255, 7] = - 1
   \<and> (\<exists>need. decodeframe_lua [255, 255, 255, 255, 7]
         = Inr [LInteger NSQPP_FRAME_PARTIAL, LInteger need])"
proof -
  have s: "size_field [255, 255, 255, 255, 7] = - 1" by code_simp
  show ?thesis
    using negative_size_partial [of "[255, 255, 255, 255, 7]"] s by simp
qed

end
